theory Spec2Isabelle
  imports Main
begin

section \<open>IEEE 754 binary64 data and arithmetic\<close>

text \<open>
  The C type \<open>double\<close> of \<open>geometry.h\<close> is the IEEE 754 binary64 format. A datum is a
  signed infinity, a signed finite number \<open>Fin s m e\<close> whose value is
  \<open>(if s then -1 else 1) * m * 2 ^ e\<close>, or a NaN \<open>NaN s f\<close> with its sign bit and its
  52 bit fraction field \<open>f\<close>, which is not zero and whose highest bit, \<open>2 ^ 51\<close>, marks
  a quiet NaN. The sign \<open>s\<close> is \<open>True\<close> for a set sign bit, so the two zeros
  \<open>Fin False 0 (-1074)\<close> and \<open>Fin True 0 (-1074)\<close> are distinct data. Two data are equal
  exactly when their 64 bits are.

  IEEE 754 prescribes the result of every operation but for the sign and the fraction
  field of a NaN result. Those are the ones of the x86-64 SSE2 instructions, which the
  compilers of the source's build notes (\<open>gcc\<close>, \<open>clang\<close>) emit for \<open>double\<close>
  arithmetic: an operation with a NaN operand returns its first NaN operand, made
  quiet; an invalid operation on other operands returns the default NaN, which has the
  sign bit set; a negation changes the sign bit and nothing else. Every operation of
  the source is one IEEE 754 operation with its own rounding (no contraction into a
  fused multiply-add).
\<close>

datatype double = NaN bool nat | Inf bool | Fin bool nat int

fun is_nan :: "double \<Rightarrow> bool" where
  "is_nan (NaN s f) = True"
| "is_nan (Inf s) = False"
| "is_nan (Fin s m e) = False"

text \<open>Setting the quiet bit of a fraction field.\<close>

definition quiet_frac :: "nat \<Rightarrow> nat" where
  "quiet_frac f = (if even (f div 2 ^ 51) then f + 2 ^ 51 else f)"

fun quiet :: "double \<Rightarrow> double" where
  "quiet (NaN s f) = NaN s (quiet_frac f)"
| "quiet (Inf s) = Inf s"
| "quiet (Fin s m e) = Fin s m e"

text \<open>The default NaN (bit pattern \<open>FFF8000000000000\<close>).\<close>

definition default_nan :: double where
  "default_nan = NaN True (2 ^ 51)"

text \<open>
  The data of the format. A finite number has a 53 bit significand that is normalised
  (\<open>2 ^ 52 \<le> m\<close>) unless the exponent is the smallest one, which holds the subnormal
  numbers and the zeros.
\<close>

fun is_double :: "double \<Rightarrow> bool" where
  "is_double (NaN s f) = (0 < f \<and> f < 2 ^ 52)"
| "is_double (Inf s) = True"
| "is_double (Fin s m e) =
     (m < 2 ^ 53 \<and> - 1074 \<le> e \<and> e \<le> 971 \<and> (2 ^ 52 \<le> m \<or> e = - 1074))"

text \<open>The number of binary digits of a natural number.\<close>

fun bitlen :: "nat \<Rightarrow> nat" where
  "bitlen n = (if n = 0 then 0 else bitlen (n div 2) + 1)"

declare bitlen.simps [simp del]

text \<open>
  Rounding to nearest, ties to even (the default rounding direction, which the program
  never changes). \<open>round_mag M E\<close> is the magnitude nearest to the exact value
  \<open>M * 2 ^ E\<close>, as significand and exponent, or \<open>None\<close> when the rounded value is
  beyond the largest finite number. The exponent \<open>e'\<close> is the one the result has before
  a carry: at most 53 digits of \<open>M\<close> lie at or above it, and it is never below the
  smallest exponent. When \<open>e'\<close> is above \<open>E\<close> the \<open>k\<close> low digits are cut off, and the
  remainder \<open>r\<close> against the half \<open>h\<close> decides the direction.
\<close>

definition round_mag :: "nat \<Rightarrow> int \<Rightarrow> (nat \<times> int) option" where
  "round_mag M E =
     (if M = 0 then Some (0, - 1074)
      else
        let e' = max (- 1074) (E + int (bitlen M) - 53) in
        if e' \<le> E then
          (if 971 < e' then None else Some (M * 2 ^ nat (E - e'), e'))
        else
          let k = nat (e' - E);
              q = M div 2 ^ k;
              r = M mod 2 ^ k;
              h = 2 ^ (k - 1);
              q' = (if h < r \<or> (r = h \<and> odd q) then q + 1 else q);
              m'' = (if q' = 2 ^ 53 then 2 ^ 52 else q');
              e'' = (if q' = 2 ^ 53 then e' + 1 else e')
          in if 971 < e'' then None else Some (m'', e''))"

text \<open>The rounded datum with its sign; an overflow gives the infinity of that sign.\<close>

definition round_ne :: "bool \<Rightarrow> nat \<Rightarrow> int \<Rightarrow> double" where
  "round_ne s M E = (case round_mag M E of None \<Rightarrow> Inf s | Some (m, e) \<Rightarrow> Fin s m e)"

text \<open>The signed integer \<open>\<plusminus> m\<close>.\<close>

definition signed :: "bool \<Rightarrow> nat \<Rightarrow> int" where
  "signed s m = (if s then - int m else int m)"

text \<open>
  Addition: the exact sum of the two values, rounded. An exact zero sum is \<open>+0\<close> unless
  both operands are negative (the sum of two negative zeros). Infinities of opposite
  sign have no sum: the invalid operation gives the default NaN.
\<close>

fun d_add :: "double \<Rightarrow> double \<Rightarrow> double" where
  "d_add (NaN s f) _ = quiet (NaN s f)"
| "d_add _ (NaN s f) = quiet (NaN s f)"
| "d_add (Inf s) (Inf t) = (if s = t then Inf s else default_nan)"
| "d_add (Inf s) (Fin _ _ _) = Inf s"
| "d_add (Fin _ _ _) (Inf t) = Inf t"
| "d_add (Fin sx mx ex) (Fin sy my ey) =
     (let e = min ex ey;
          v = signed sx (mx * 2 ^ nat (ex - e)) + signed sy (my * 2 ^ nat (ey - e))
      in if v = 0 then Fin (sx \<and> sy) 0 (- 1074)
         else round_ne (v < 0) (nat \<bar>v\<bar>) e)"

fun d_neg :: "double \<Rightarrow> double" where
  "d_neg (NaN s f) = NaN (\<not> s) f"
| "d_neg (Inf s) = Inf (\<not> s)"
| "d_neg (Fin s m e) = Fin (\<not> s) m e"

text \<open>
  Subtraction is the addition of the negated second operand, except that a NaN operand
  is returned with its own sign.
\<close>

definition d_sub :: "double \<Rightarrow> double \<Rightarrow> double" where
  "d_sub a b =
     (if is_nan a then quiet a else if is_nan b then quiet b else d_add a (d_neg b))"

text \<open>
  Multiplication: the exact product, rounded; the sign is the exclusive or of the
  signs. Zero times infinity is the invalid operation.
\<close>

fun d_mul :: "double \<Rightarrow> double \<Rightarrow> double" where
  "d_mul (NaN s f) _ = quiet (NaN s f)"
| "d_mul _ (NaN s f) = quiet (NaN s f)"
| "d_mul (Inf s) (Inf t) = Inf (s \<noteq> t)"
| "d_mul (Inf s) (Fin t m e) = (if m = 0 then default_nan else Inf (s \<noteq> t))"
| "d_mul (Fin s m e) (Inf t) = (if m = 0 then default_nan else Inf (s \<noteq> t))"
| "d_mul (Fin sx mx ex) (Fin sy my ey) = round_ne (sx \<noteq> sy) (mx * my) (ex + ey)"

text \<open>
  The integer square root by bisection: the largest \<open>r\<close> with \<open>r * r \<le> n\<close>, searched
  between \<open>lo\<close> (whose square is at most \<open>n\<close>) and \<open>hi\<close> (whose square is above \<open>n\<close>).
\<close>

function isqrt_between :: "nat \<Rightarrow> nat \<Rightarrow> nat \<Rightarrow> nat" where
  "isqrt_between lo hi n =
     (if hi \<le> Suc lo then lo
      else let mid = (lo + hi) div 2
           in if mid * mid \<le> n then isqrt_between mid hi n
              else isqrt_between lo mid n)"
  by pat_completeness auto
termination
  by (relation "measure (\<lambda>(lo, hi, n). hi - lo)") auto

declare isqrt_between.simps [simp del]

definition isqrt :: "nat \<Rightarrow> nat" where
  "isqrt n = isqrt_between 0 (Suc n) n"

text \<open>
  The square root (\<open>sqrt\<close> of \<open>math.h\<close>, correctly rounded as IEEE 754 requires). Of
  a positive \<open>m * 2 ^ e\<close>: the significand is scaled by \<open>2 ^ j\<close>, with \<open>j\<close> at least 110
  and \<open>e - j\<close> even, so that the integer root \<open>r\<close> has more than 53 digits; a last digit
  records whether the root is inexact, and the whole is rounded. The root of a zero is
  that zero, the root of a negative number is the invalid operation and gives the
  default NaN.
\<close>

fun d_sqrt :: "double \<Rightarrow> double" where
  "d_sqrt (NaN s f) = quiet (NaN s f)"
| "d_sqrt (Inf s) = (if s then default_nan else Inf False)"
| "d_sqrt (Fin s m e) =
     (if m = 0 then Fin s 0 (- 1074)
      else if s then default_nan
      else
        let j = (if even (e - 110) then 110 else 111);
            n = m * 2 ^ nat j;
            r = isqrt n;
            sticky = (if r * r = n then 0 else 1)
        in round_ne False (2 * r + sticky) ((e - j) div 2 - 1))"

text \<open>The conversion of an integer to \<open>double\<close>; the integer zero becomes \<open>+0\<close>.\<close>

definition double_of_int :: "int \<Rightarrow> double" where
  "double_of_int i = round_ne (i < 0) (nat \<bar>i\<bar>) 0"

text \<open>
  A decimal constant of the source with a dyadic value \<open>n / 2 ^ k\<close>, such as \<open>2.5 = 5 / 2\<close>.
\<close>

definition double_of_dyadic :: "int \<Rightarrow> nat \<Rightarrow> double" where
  "double_of_dyadic n k = round_ne (n < 0) (nat \<bar>n\<bar>) (- int k)"

section \<open>Formatted output\<close>

text \<open>
  The program writes to the standard output only, through \<open>printf\<close>. The output
  stream is the text written so far; writing appends to it.
\<close>

definition put :: "string \<Rightarrow> string \<Rightarrow> string" where
  "put out s = out @ s"

definition digit_char :: "nat \<Rightarrow> char" where
  "digit_char d = ''0123456789'' ! d"

fun show_nat :: "nat \<Rightarrow> string" where
  "show_nat n = (if n < 10 then [digit_char n] else show_nat (n div 10) @ [digit_char (n mod 10)])"

declare show_nat.simps [simp del]

text \<open>
  The number that a decimal numeral denotes, to state what \<open>show_nat\<close> prints: the
  value of a digit character is its code less the code 48 of the character \<open>0\<close>.
\<close>

definition digit_val :: "char \<Rightarrow> nat" where
  "digit_val c = of_char c - 48"

definition read_nat :: "string \<Rightarrow> nat" where
  "read_nat cs = foldl (\<lambda>n c. 10 * n + digit_val c) 0 cs"

text \<open>
  The conversion \<open>%.2f\<close> prints the value rounded to two decimal places. The number
  of hundredths nearest to \<open>m * 2 ^ e\<close> (a tie goes to the even one, as the C library
  rounds the exact value in the default rounding direction):
\<close>

definition hundredths :: "nat \<Rightarrow> int \<Rightarrow> nat" where
  "hundredths m e =
     (if 0 \<le> e then m * 100 * 2 ^ nat e
      else
        let k = nat (- e);
            q = (m * 100) div 2 ^ k;
            r = (m * 100) mod 2 ^ k;
            h = 2 ^ (k - 1)
        in if h < r \<or> (r = h \<and> odd q) then q + 1 else q)"

text \<open>
  A finite number is printed as an optional minus sign (also for a negative zero), the
  integer part, a point and exactly two decimals. An infinity is printed as \<open>inf\<close> and
  a NaN as \<open>nan\<close>, without decimals, each after a minus sign when its sign bit is set
  (the spelling of the GNU C library).
\<close>

fun fmt_2f :: "double \<Rightarrow> string" where
  "fmt_2f (NaN s f) = (if s then ''-nan'' else ''nan'')"
| "fmt_2f (Inf s) = (if s then ''-inf'' else ''inf'')"
| "fmt_2f (Fin s m e) =
     (let q = hundredths m e
      in (if s then ''-'' else []) @ show_nat (q div 100) @ ''.'' @
         [digit_char (q div 10 mod 10), digit_char (q mod 10)])"

section \<open>The point module\<close>

text \<open>\<open>geometry.h\<close>: the origin constants (integer constants) and the structure.\<close>

definition ORIGIN_X :: int where
  "ORIGIN_X = 0"

definition ORIGIN_Y :: int where
  "ORIGIN_Y = 0"

record Point =
  x :: double
  y :: double

text \<open>
  \<open>createPoint\<close> declares the local \<open>newPoint\<close> without an initialiser, assigns its two
  fields and returns it. \<open>createPoint_from\<close> is the body run on whatever the local
  held before; \<open>createPoint\<close> is the structure the caller receives.
\<close>

definition createPoint_from :: "Point \<Rightarrow> double \<Rightarrow> double \<Rightarrow> Point" where
  "createPoint_from newPoint xv yv =
     (let newPoint = newPoint\<lparr>x := xv\<rparr>;
          newPoint = newPoint\<lparr>y := yv\<rparr>
      in newPoint)"

definition createPoint :: "double \<Rightarrow> double \<Rightarrow> Point" where
  "createPoint xv yv = \<lparr>x = xv, y = yv\<rparr>"

text \<open>\<open>displayPoint\<close>: one \<open>printf\<close> with the format \<open>"Point(x: %.2f, y: %.2f)\n"\<close>.\<close>

definition displayPoint :: "Point \<Rightarrow> string \<Rightarrow> string" where
  "displayPoint p out =
     put out (''Point(x: '' @ fmt_2f (x p) @ '', y: '' @ fmt_2f (y p) @ '')'' @ [CHR 0x0A])"

text \<open>
  \<open>distanceToOrigin\<close>: the integer constants \<open>ORIGIN_X\<close> and \<open>ORIGIN_Y\<close> are converted
  to \<open>double\<close> for the subtractions.
\<close>

definition distanceToOrigin :: "Point \<Rightarrow> double" where
  "distanceToOrigin p =
     (let deltaX = d_sub (x p) (double_of_int ORIGIN_X);
          deltaY = d_sub (y p) (double_of_int ORIGIN_Y)
      in d_sqrt (d_add (d_mul deltaX deltaX) (d_mul deltaY deltaY)))"

text \<open>
  \<open>addPoints\<close>: like \<open>createPoint\<close>, the local \<open>result\<close> has no initialiser;
  \<open>addPoints_from\<close> is the body run on whatever it held.
\<close>

definition addPoints_from :: "Point \<Rightarrow> Point \<Rightarrow> Point \<Rightarrow> Point" where
  "addPoints_from result p1 p2 =
     (let result = result\<lparr>x := d_add (x p1) (x p2)\<rparr>;
          result = result\<lparr>y := d_add (y p1) (y p2)\<rparr>
      in result)"

definition addPoints :: "Point \<Rightarrow> Point \<Rightarrow> Point" where
  "addPoints p1 p2 = \<lparr>x = d_add (x p1) (x p2), y = d_add (y p1) (y p2)\<rparr>"

text \<open>
  \<open>main\<close>, from the output written before it starts to the output when it returns
  and its return value. The constants \<open>3.0\<close>, \<open>4.0\<close>, \<open>1.0\<close> and \<open>2.5\<close> are dyadic;
  \<open>-1.0\<close> is the negation of \<open>1.0\<close>.
\<close>

definition main :: "string \<Rightarrow> string \<times> int" where
  "main out0 =
     (let p1 = createPoint (double_of_dyadic 3 0) (double_of_dyadic 4 0);
          p2 = createPoint (d_neg (double_of_dyadic 1 0)) (double_of_dyadic 5 1);
          out = put out0 ''Point p1: '';
          out = displayPoint p1 out;
          out = put out ''Point p2: '';
          out = displayPoint p2 out;
          dist = distanceToOrigin p1;
          out = put out (''Distance of p1 from origin: '' @ fmt_2f dist @ [CHR 0x0A]);
          sumPoint = addPoints p1 p2;
          out = put out ''Sum of p1 and p2: '';
          out = displayPoint sumPoint out;
          dist = distanceToOrigin sumPoint;
          out = put out (''Distance of sumPoint from origin: '' @ fmt_2f dist @ [CHR 0x0A])
      in (out, 0))"

section \<open>Properties of the arithmetic\<close>

subsection \<open>Binary digits and integer square roots\<close>

lemma bitlen_0: "bitlen 0 = 0"
  by (simp add: bitlen.simps)

lemma bitlen_bounds: "n \<noteq> 0 \<Longrightarrow> 2 ^ (bitlen n - 1) \<le> n \<and> n < 2 ^ bitlen n"
proof (induction n rule: bitlen.induct)
  case (1 n)
  show ?case
  proof (cases "n div 2 = 0")
    case True
    with 1 have "n = 1" by (auto simp: div_eq_0_iff)
    then show ?thesis by (simp add: bitlen.simps)
  next
    case False
    with 1 have ih: "2 ^ (bitlen (n div 2) - 1) \<le> n div 2" "n div 2 < 2 ^ bitlen (n div 2)"
      by auto
    have pos: "0 < bitlen (n div 2)" using False by (subst bitlen.simps) simp
    have eq: "bitlen n = bitlen (n div 2) + 1" using 1(2) by (subst bitlen.simps) simp
    have a: "2 ^ (bitlen n - 1) \<le> n"
    proof -
      have "2 * 2 ^ (bitlen (n div 2) - 1) \<le> 2 * (n div 2)" using ih(1) by simp
      moreover have "2 * 2 ^ (bitlen (n div 2) - 1) = (2::nat) ^ bitlen (n div 2)"
        using pos by (cases "bitlen (n div 2)") simp_all
      ultimately show ?thesis using eq by simp
    qed
    have b: "n < 2 ^ bitlen n"
    proof -
      have "n div 2 + 1 \<le> 2 ^ bitlen (n div 2)" using ih(2) by simp
      then have "2 * (n div 2) + 2 \<le> 2 * 2 ^ bitlen (n div 2)" by simp
      then show ?thesis using eq by simp
    qed
    from a b show ?thesis ..
  qed
qed

lemma bitlen_unique:
  assumes "2 ^ (k - 1) \<le> n" "n < 2 ^ k" "0 < k"
  shows "bitlen n = k"
proof -
  have "(0::nat) < 2 ^ (k - 1)" by simp
  with assms(1) have n0: "n \<noteq> 0" by linarith
  from bitlen_bounds [OF n0] have b: "2 ^ (bitlen n - 1) \<le> n" "n < 2 ^ bitlen n" by auto
  have "(2::nat) ^ (bitlen n - 1) < 2 ^ k" using b(1) assms(2) by (rule le_less_trans)
  then have 1: "bitlen n - 1 < k" by (rule power_less_imp_less_exp [rotated]) simp
  have "(2::nat) ^ (k - 1) < 2 ^ bitlen n" using assms(1) b(2) by (rule le_less_trans)
  then have 2: "k - 1 < bitlen n" by (rule power_less_imp_less_exp [rotated]) simp
  from 1 2 assms(3) show ?thesis by simp
qed

lemma bitlen_shift:
  assumes "2 ^ 52 \<le> m" "m < 2 ^ 53"
  shows "bitlen (m * 2 ^ j) = 53 + j"
proof (rule bitlen_unique)
  have "(2::nat) ^ 52 * 2 ^ j \<le> m * 2 ^ j" using assms(1) by (rule mult_le_mono1)
  then show "2 ^ (53 + j - 1) \<le> m * 2 ^ j" by (simp add: power_add)
  have "m * 2 ^ j < 2 ^ 53 * 2 ^ j" using assms(2) by simp
  then show "m * 2 ^ j < 2 ^ (53 + j)" by (simp add: power_add)
  show "0 < 53 + j" by simp
qed

lemma bitlen_le:
  assumes "m < 2 ^ k"
  shows "bitlen m \<le> k"
proof (cases "m = 0")
  case True
  then show ?thesis by (simp add: bitlen_0)
next
  case False
  from bitlen_bounds [OF False] have "2 ^ (bitlen m - 1) \<le> m" by simp
  from this assms have "(2::nat) ^ (bitlen m - 1) < 2 ^ k" by (rule le_less_trans)
  then have "bitlen m - 1 < k" by (rule power_less_imp_less_exp [rotated]) simp
  then show ?thesis by simp
qed

lemma bitlen_small: "bitlen (Suc 0) = 1" "bitlen 2 = 2" "bitlen 3 = 2" "bitlen 4 = 3" "bitlen 5 = 3" "bitlen 13 = 4"
  by (simp_all add: bitlen.simps)

lemma isqrt_between_correct:
  "lo * lo \<le> n \<Longrightarrow> n < hi * hi \<Longrightarrow>
     isqrt_between lo hi n * isqrt_between lo hi n \<le> n \<and>
     n < (isqrt_between lo hi n + 1) * (isqrt_between lo hi n + 1)"
proof (induction lo hi n rule: isqrt_between.induct)
  case (1 lo hi n)
  show ?case
  proof (cases "hi \<le> Suc lo")
    case True
    have "hi * hi \<le> Suc lo * Suc lo" by (rule mult_le_mono [OF True True])
    with 1(3,4) True show ?thesis by (subst (1 2 3 4) isqrt_between.simps) simp
  next
    case False
    show ?thesis
    proof (cases "(lo + hi) div 2 * ((lo + hi) div 2) \<le> n")
      case True
      with False 1(1) [OF False refl True True 1(4)] show ?thesis
        by (subst (1 2 3 4) isqrt_between.simps) (simp add: Let_def)
    next
      case F2: False
      then have "n < (lo + hi) div 2 * ((lo + hi) div 2)" by simp
      with False F2 1(2) [OF False refl F2 1(3)] show ?thesis
        by (subst (1 2 3 4) isqrt_between.simps) (simp add: Let_def)
    qed
  qed
qed

lemma isqrt_correct: "isqrt n * isqrt n \<le> n \<and> n < (isqrt n + 1) * (isqrt n + 1)"
  unfolding isqrt_def
proof (rule isqrt_between_correct)
  show "0 * 0 \<le> n" by simp
  have "n \<le> n * n" by (cases n) simp_all
  then show "n < Suc n * Suc n" by simp
qed

lemma isqrt_unique:
  assumes "r * r \<le> n" "n < (r + 1) * (r + 1)"
  shows "isqrt n = r"
proof -
  let ?s = "isqrt n"
  from isqrt_correct have s: "?s * ?s \<le> n" "n < (?s + 1) * (?s + 1)" by auto
  have "\<not> ?s < r"
  proof
    assume "?s < r"
    then have le: "?s + 1 \<le> r" by simp
    have "(?s + 1) * (?s + 1) \<le> r * r" by (rule mult_le_mono [OF le le])
    with s(2) assms(1) show False by simp
  qed
  moreover have "\<not> r < ?s"
  proof
    assume "r < ?s"
    then have le: "r + 1 \<le> ?s" by simp
    have "(r + 1) * (r + 1) \<le> ?s * ?s" by (rule mult_le_mono [OF le le])
    with s(1) assms(2) show False by simp
  qed
  ultimately show ?thesis by simp
qed

subsection \<open>Rounding\<close>

text \<open>Rounding leaves a number of the format as it is, however far its significand was
  shifted for an alignment.\<close>

lemma round_mag_exact:
  assumes d: "is_double (Fin s m e)" and j: "j = nat (e - E)" and E: "- 1074 \<le> E" "E \<le> e"
    and m0: "m \<noteq> 0" and sub: "m < 2 ^ 52 \<Longrightarrow> E = - 1074"
  shows "round_mag (m * 2 ^ j) E = Some (m, e)"
proof (cases "2 ^ 52 \<le> m")
  case True
  from d have m53: "m < 2 ^ 53" and e: "e \<le> 971" by simp_all
  have bl: "bitlen (m * 2 ^ j) = 53 + j" using True m53 by (rule bitlen_shift)
  have e': "max (- 1074) (E + int (bitlen (m * 2 ^ j)) - 53) = e"
    using bl j E by simp
  show ?thesis
  proof (cases "j = 0")
    case j0: True
    with j E have "E = e" by simp
    with j0 e m0 e' show ?thesis by (simp add: round_mag_def Let_def)
  next
    case False
    then have lt: "\<not> e \<le> E" and k: "nat (e - E) = j" using j by simp_all
    have h: "(0::nat) < 2 ^ (j - 1)" by simp
    show ?thesis
      using m0 e' lt k h m53 e by (simp add: round_mag_def Let_def)
  qed
next
  case False
  then have lt: "m < 2 ^ 52" by simp
  with d sub have e: "e = - 1074" "E = - 1074" by simp_all
  with j have j0: "j = 0" by simp
  have "bitlen m \<le> 52" using lt by (rule bitlen_le)
  then have e': "max (- 1074) (- 1074 + int (bitlen m) - 53) = - 1074" by simp
  show ?thesis using m0 e j0 e' by (simp add: round_mag_def Let_def)
qed

text \<open>Rounding always gives a number of the format.\<close>

lemma round_mag_is_double:
  assumes "round_mag M E = Some (m, e)"
  shows "is_double (Fin s m e)"
proof (cases "M = 0")
  case True
  with assms show ?thesis by (simp add: round_mag_def)
next
  case M0: False
  define n where "n = bitlen M"
  define e' where "e' = max (- 1074) (E + int n - 53)"
  from bitlen_bounds [OF M0] have lo: "2 ^ (n - 1) \<le> M" and hi: "M < 2 ^ n"
    by (simp_all add: n_def)
  have n0: "0 < n" using hi M0 by (cases n) simp_all
  have e'lo: "- 1074 \<le> e'" and e'n: "E + int n - 53 \<le> e'" by (simp_all add: e'_def)
  have e'cases: "e' = - 1074 \<or> e' = E + int n - 53" by (auto simp: e'_def max_def)
  show ?thesis
  proof (cases "e' \<le> E")
    case True
    define j where "j = nat (E - e')"
    have "round_mag M E = (if 971 < e' then None else Some (M * 2 ^ j, e'))"
      unfolding round_mag_def Let_def n_def [symmetric] e'_def [symmetric] j_def [symmetric]
      using M0 True by (simp only: if_False if_True)
    with assms have ov: "\<not> 971 < e'" and m: "m = M * 2 ^ j" and e: "e = e'"
      by (auto split: if_splits)
    have nj: "n + j \<le> 53" using e'n True by (simp add: j_def)
    have "M * 2 ^ j < 2 ^ n * 2 ^ j" using hi by simp
    also have "\<dots> = 2 ^ (n + j)" by (simp add: power_add)
    also have "\<dots> \<le> (2::nat) ^ 53" using nj by (rule power_increasing) simp
    finally have m53: "m < 2 ^ 53" by (simp add: m)
    have "2 ^ 52 \<le> m \<or> e' = - 1074"
    proof (cases "e' = - 1074")
      case False
      with e'cases have "e' = E + int n - 53" by simp
      then have "n + j = 53" using True by (simp add: j_def)
      then have "(2::nat) ^ 52 = 2 ^ (n - 1) * 2 ^ j" using n0
        by (simp add: power_add [symmetric])
      also have "\<dots> \<le> M * 2 ^ j" using lo by (rule mult_le_mono1)
      finally show ?thesis by (simp add: m)
    qed simp
    with m53 e'lo ov e show ?thesis by auto
  next
    case False
    define k where "k = nat (e' - E)"
    define q where "q = M div 2 ^ k"
    define q' where "q' = (if 2 ^ (k - 1) < M mod 2 ^ k \<or> (M mod 2 ^ k = 2 ^ (k - 1) \<and> odd q) then q + 1 else q)"
    have "round_mag M E =
        (if 971 < (if q' = 2 ^ 53 then e' + 1 else e') then None
         else Some (if q' = 2 ^ 53 then 2 ^ 52 else q', if q' = 2 ^ 53 then e' + 1 else e'))"
      unfolding round_mag_def Let_def n_def [symmetric] e'_def [symmetric] k_def [symmetric]
        q_def [symmetric] q'_def [symmetric]
      using M0 False by (simp only: if_False if_True)
    with assms
    have res: "\<not> 971 < (if q' = 2 ^ 53 then e' + 1 else e')"
      "m = (if q' = 2 ^ 53 then 2 ^ 52 else q')" "e = (if q' = 2 ^ 53 then e' + 1 else e')"
      by (auto split: if_splits)
    have nk: "n \<le> k + 53" using e'n False by (simp add: k_def)
    have "M < 2 ^ n" by (rule hi)
    also have "\<dots> \<le> (2::nat) ^ (k + 53)" using nk by (rule power_increasing) simp
    also have "\<dots> = 2 ^ 53 * 2 ^ k" by (simp add: power_add)
    finally have "q < 2 ^ 53" unfolding q_def by (simp add: less_mult_imp_div_less)
    then have q'53: "q' \<le> 2 ^ 53" by (simp add: q'_def)
    have qq': "q \<le> q'" by (simp add: q'_def)
    have low: "2 ^ 52 \<le> q'" if "e' \<noteq> - 1074"
    proof -
      from that e'cases have "e' = E + int n - 53" by simp
      then have "n = k + 53" using False by (simp add: k_def)
      then have "n - 1 = 52 + k" by simp
      then have "(2::nat) ^ (n - 1) = 2 ^ 52 * 2 ^ k" by (simp only: power_add)
      with lo have "2 ^ 52 * 2 ^ k \<le> M" by (simp only:)
      then have "2 ^ 52 * 2 ^ k div 2 ^ k \<le> M div 2 ^ k" by (rule div_le_mono)
      then have "2 ^ 52 \<le> q" by (simp add: q_def)
      with qq' show ?thesis by simp
    qed
    show ?thesis
    proof (cases "q' = 2 ^ 53")
      case True
      with res e'lo show ?thesis by simp
    next
      case F: False
      with q'53 have "q' < 2 ^ 53" by simp
      with F res e'lo low show ?thesis by auto
    qed
  qed
qed

lemma nearest_multiple:
  fixes N P h :: nat
  assumes P: "P = 2 * h" and h: "0 < h"
  defines "R \<equiv> (if h < N mod P \<or> (N mod P = h \<and> odd (N div P)) then N div P + 1 else N div P)"
  shows "2 * (R * P) \<le> 2 * N + P \<and> 2 * N \<le> 2 * (R * P) + P"
proof -
  define A r where "A = N div P * P" and "r = N mod P"
  have N: "N = A + r" by (simp add: A_def r_def)
  have r: "r < P" using P h by (simp add: r_def)
  show ?thesis
  proof (cases "h < N mod P \<or> (N mod P = h \<and> odd (N div P))")
    case True
    then have "R = N div P + 1" unfolding R_def by (rule if_P)
    then have "R * P = A + P" by (simp add: A_def algebra_simps)
    moreover from True have "h \<le> r" by (auto simp: r_def)
    ultimately show ?thesis using N r P by simp
  next
    case False
    then have "R = N div P" unfolding R_def by (rule if_not_P)
    then have "R * P = A" by (simp add: A_def)
    moreover from False have "r \<le> h" by (auto simp: r_def)
    ultimately show ?thesis using N r P by simp
  qed
qed

text \<open>
  Rounding is exact when no digit is cut off, and otherwise at most half a unit in the
  last place away from the exact value \<open>M * 2 ^ E\<close> (both sides scaled by \<open>2 ^ - E\<close>).
\<close>

lemma round_mag_error:
  assumes "round_mag M E = Some (m, e)"
  shows "(e \<le> E \<longrightarrow> m = M * 2 ^ nat (E - e)) \<and>
         (E < e \<longrightarrow> 2 * (m * 2 ^ nat (e - E)) \<le> 2 * M + 2 ^ nat (e - E) \<and>
                    2 * M \<le> 2 * (m * 2 ^ nat (e - E)) + 2 ^ nat (e - E))"
proof (cases "M = 0")
  case True
  with assms show ?thesis by (simp add: round_mag_def)
next
  case M0: False
  define e' where "e' = max (- 1074) (E + int (bitlen M) - 53)"
  show ?thesis
  proof (cases "e' \<le> E")
    case True
    have "round_mag M E = (if 971 < e' then None else Some (M * 2 ^ nat (E - e'), e'))"
      unfolding round_mag_def Let_def e'_def [symmetric]
      using M0 True by (simp only: if_False if_True)
    with assms have "m = M * 2 ^ nat (E - e')" "e = e'" by (auto split: if_splits)
    with True show ?thesis by simp
  next
    case False
    define k where "k = nat (e' - E)"
    define q' where "q' = (if 2 ^ (k - 1) < M mod 2 ^ k \<or> (M mod 2 ^ k = 2 ^ (k - 1) \<and> odd (M div 2 ^ k))
                            then M div 2 ^ k + 1 else M div 2 ^ k)"
    have "round_mag M E =
        (if 971 < (if q' = 2 ^ 53 then e' + 1 else e') then None
         else Some (if q' = 2 ^ 53 then 2 ^ 52 else q', if q' = 2 ^ 53 then e' + 1 else e'))"
      unfolding round_mag_def Let_def e'_def [symmetric] k_def [symmetric] q'_def [symmetric]
      using M0 False by (simp only: if_False if_True)
    with assms
    have res: "m = (if q' = 2 ^ 53 then 2 ^ 52 else q')" "e = (if q' = 2 ^ 53 then e' + 1 else e')"
      by (auto split: if_splits)
    have k0: "0 < k" using False by (simp add: k_def)
    then have P: "(2::nat) ^ k = 2 * 2 ^ (k - 1)" by (cases k) simp_all
    have h: "(0::nat) < 2 ^ (k - 1)" by simp
    from nearest_multiple [OF P h, of M]
    have near: "2 * (q' * 2 ^ k) \<le> 2 * M + 2 ^ k" "2 * M \<le> 2 * (q' * 2 ^ k) + 2 ^ k"
      by (simp_all only: q'_def)
    show ?thesis
    proof (cases "q' = 2 ^ 53")
      case True
      with res have m: "m = 2 ^ 52" and e: "e = e' + 1" by simp_all
      have ke: "nat (e - E) = Suc k" using False by (simp add: e k_def)
      have "m * 2 ^ Suc k = q' * 2 ^ k" by (simp add: m True)
      with near have "2 * (m * 2 ^ Suc k) \<le> 2 * M + 2 ^ k" "2 * M \<le> 2 * (m * 2 ^ Suc k) + 2 ^ k"
        by (simp_all only:)
      moreover have "(2::nat) ^ k \<le> 2 ^ Suc k" by simp
      ultimately have "2 * (m * 2 ^ Suc k) \<le> 2 * M + 2 ^ Suc k"
        "2 * M \<le> 2 * (m * 2 ^ Suc k) + 2 ^ Suc k"
        by linarith+
      moreover have "E < e" using False e by simp
      ultimately show ?thesis by (simp only: ke) simp
    next
      case F: False
      with res have m: "m = q'" and e: "e = e'" by simp_all
      have ke: "nat (e - E) = k" by (simp add: e k_def)
      from near False show ?thesis by (simp only: ke m) (simp add: e)
    qed
  qed
qed


lemma round_ne_cases: "round_ne s M E = Inf s \<or> (\<exists>m e. round_ne s M E = Fin s m e)"
  by (simp add: round_ne_def split: option.split)

lemma round_ne_is_double: "is_double (round_ne s M E)"
  by (cases "round_mag M E") (auto simp: round_ne_def dest: round_mag_is_double)

subsection \<open>Signs, zeros and special values\<close>

lemma signed_props:
  "M \<noteq> 0 \<Longrightarrow> signed s M \<noteq> 0 \<and> (signed s M < 0) = s \<and> nat \<bar>signed s M\<bar> = M"
  by (simp add: signed_def)

lemma signed_0: "signed s 0 = 0"
  by (simp add: signed_def)


lemma double_of_int_0: "double_of_int 0 = Fin False 0 (- 1074)"
  by (simp add: double_of_int_def round_ne_def round_mag_def)

lemma quiet_frac_idem: "quiet_frac (quiet_frac f) = quiet_frac f"
proof (cases "even (f div 2 ^ 51)")
  case True
  have "(f + 2 ^ 51) div 2 ^ 51 = f div 2 ^ 51 + 1" by simp
  with True have "odd ((f + 2 ^ 51) div 2 ^ 51)" by simp
  with True show ?thesis unfolding quiet_frac_def by (simp only: if_True if_False)
next
  case False
  then show ?thesis unfolding quiet_frac_def by (simp only: if_False)
qed

lemma quiet_frac_bounds:
  assumes "f < 2 ^ 52"
  shows "0 < quiet_frac f \<and> quiet_frac f < 2 ^ 52"
proof (cases "even (f div 2 ^ 51)")
  case True
  have "f div 2 ^ 51 < 2" using assms by (simp add: less_mult_imp_div_less)
  with True have "f div 2 ^ 51 = 0" by (cases "f div 2 ^ 51") auto
  then have "f < 2 ^ 51" by (simp add: div_eq_0_iff)
  with True show ?thesis by (simp add: quiet_frac_def)
next
  case False
  have "f \<noteq> 0"
  proof
    assume "f = 0"
    with False show False by simp
  qed
  with False assms show ?thesis by (simp add: quiet_frac_def)
qed

lemma quiet_quiet: "quiet (quiet a) = quiet a"
  by (cases a) (simp_all add: quiet_frac_idem)

lemma quiet_is_nan: "is_nan (quiet a) = is_nan a"
  by (cases a) simp_all

lemma quiet_is_double:
  assumes "is_double a"
  shows "is_double (quiet a)"
proof (cases a)
  case (NaN s f)
  with assms have "f < 2 ^ 52" by simp
  from quiet_frac_bounds [OF this] NaN show ?thesis by simp
qed (use assms in simp_all)


lemma default_nan_is_double: "is_double default_nan"
  by (simp add: default_nan_def)

text \<open>Subtracting the zero of the origin leaves every number as it is.\<close>

lemma d_sub_zero:
  assumes "is_double a" and "\<not> is_nan a"
  shows "d_sub a (double_of_int 0) = a"
proof (cases a)
  case (NaN s f)
  with assms(2) show ?thesis by simp
next
  case (Inf s)
  then show ?thesis by (simp add: d_sub_def double_of_int_0)
next
  case (Fin s m e)
  with assms have d: "is_double (Fin s m e)" by simp
  then have e: "- 1074 \<le> e" by simp
  show ?thesis
  proof (cases "m = 0")
    case True
    with d have "e = - 1074" by simp
    with True Fin show ?thesis
      by (simp add: d_sub_def double_of_int_0 signed_def Let_def)
  next
    case False
    have "round_mag (m * 2 ^ nat (e - (- 1074))) (- 1074) = Some (m, e)"
      using d _ _ e False by (rule round_mag_exact) simp_all
    then have r: "round_ne s (m * 2 ^ nat (e + 1074)) (- 1074) = Fin s m e"
      by (simp add: round_ne_def)
    have "m * 2 ^ nat (e + 1074) \<noteq> 0" using False by simp
    from signed_props [OF this, of s]
    have v: "signed s (m * 2 ^ nat (e + 1074)) \<noteq> 0"
      "(signed s (m * 2 ^ nat (e + 1074)) < 0) = s"
      "nat \<bar>signed s (m * 2 ^ nat (e + 1074))\<bar> = m * 2 ^ nat (e + 1074)"
      by simp_all
    have mn: "min e (- 1074) = - 1074" using e by simp
    have "d_add (Fin s m e) (Fin True 0 (- 1074)) = Fin s m e"
      using r v by (simp add: Let_def mn signed_0)
    with Fin show ?thesis
      by (simp add: d_sub_def double_of_int_0)
  qed
qed

lemma d_sub_zero_cases:
  "d_sub (Inf s) (double_of_int 0) = Inf s"
  "d_sub (NaN s f) (double_of_int 0) = quiet (NaN s f)"
  "\<exists>t m' e'. d_sub (Fin s m e) (double_of_int 0) = Inf t \<or> d_sub (Fin s m e) (double_of_int 0) = Fin t m' e'"
proof -
  show "d_sub (Inf s) (double_of_int 0) = Inf s"
    "d_sub (NaN s f) (double_of_int 0) = quiet (NaN s f)"
    by (simp_all add: d_sub_def double_of_int_0)
  let ?v = "signed s (m * 2 ^ nat (e - min e (- 1074)))"
  show "\<exists>t m' e'. d_sub (Fin s m e) (double_of_int 0) = Inf t \<or> d_sub (Fin s m e) (double_of_int 0) = Fin t m' e'"
    using round_ne_cases [of "?v < 0" "nat \<bar>?v\<bar>" "min e (- 1074)"]
    by (auto simp: d_sub_def double_of_int_0 Let_def signed_0)
qed

lemma d_sub_zero_is_nan: "is_nan (d_sub a (double_of_int 0)) = is_nan a"
proof (cases a)
  case (Fin s m e)
  with d_sub_zero_cases(3) [of s m e] show ?thesis by auto
qed (simp_all add: d_sub_zero_cases quiet_frac_def)

text \<open>
  The square of a coordinate's distance from the zero of the origin is the square of
  the coordinate: of a number because the subtraction returns it, of a NaN because
  both are that NaN made quiet.
\<close>

lemma sq_delta:
  assumes "is_double a"
  shows "d_mul (d_sub a (double_of_int 0)) (d_sub a (double_of_int 0)) = d_mul a a"
proof (cases "is_nan a")
  case True
  then obtain s f where "a = NaN s f" by (cases a) simp_all
  then show ?thesis by (simp add: d_sub_zero_cases quiet_frac_idem)
next
  case False
  with assms show ?thesis by (simp add: d_sub_zero)
qed



lemma d_add_two_nans: "d_add (NaN s f) (NaN t g) = NaN s (quiet_frac f)"
  by simp

lemma d_add_is_nan_left: "is_nan a \<Longrightarrow> is_nan (d_add a b)"
  by (cases a) simp_all

lemma d_add_is_nan_right: "is_nan b \<Longrightarrow> is_nan (d_add a b)"
  by (cases a; cases b) simp_all



lemma d_mul_self_cases:
  "\<not> is_nan a \<Longrightarrow> d_mul a a = Inf False \<or> (\<exists>m e. d_mul a a = Fin False m e)"
  using round_ne_cases [of False] by (cases a) auto

lemma d_mul_self_is_nan: "is_nan (d_mul a a) = is_nan a"
proof (cases "is_nan a")
  case True
  then show ?thesis by (cases a) simp_all
next
  case False
  with d_mul_self_cases [OF False] show ?thesis by auto
qed

text \<open>The operations stay within the format.\<close>

lemma d_neg_is_double: "is_double a \<Longrightarrow> is_double (d_neg a)"
  by (cases a) simp_all

lemma d_add_is_double: "is_double a \<Longrightarrow> is_double b \<Longrightarrow> is_double (d_add a b)"
  by (cases a; cases b)
     (simp_all add: Let_def round_ne_is_double quiet_is_double default_nan_is_double
        del: quiet.simps is_double.simps(1))

lemma d_sub_is_double: "is_double a \<Longrightarrow> is_double b \<Longrightarrow> is_double (d_sub a b)"
  by (simp add: d_sub_def quiet_is_double d_add_is_double d_neg_is_double)

lemma d_mul_is_double: "is_double a \<Longrightarrow> is_double b \<Longrightarrow> is_double (d_mul a b)"
  by (cases a; cases b)
     (simp_all add: round_ne_is_double quiet_is_double default_nan_is_double
        del: quiet.simps is_double.simps(1))

lemma d_sqrt_is_double: "is_double a \<Longrightarrow> is_double (d_sqrt a)"
  by (cases a)
     (simp_all add: Let_def round_ne_is_double quiet_is_double default_nan_is_double
        del: quiet.simps is_double.simps(1))

subsection \<open>The constants and the operations of the demonstration\<close>

lemma lit_0: "double_of_dyadic 0 0 = Fin False 0 (- 1074)"
  by (simp add: double_of_dyadic_def round_ne_def round_mag_def)

lemma lit_1: "double_of_dyadic 1 0 = Fin False (2 ^ 52) (- 52)"
  by (simp add: double_of_dyadic_def round_ne_def round_mag_def bitlen_small)

lemma lit_2: "double_of_dyadic 2 0 = Fin False (2 ^ 52) (- 51)"
  by (simp add: double_of_dyadic_def round_ne_def round_mag_def bitlen_small)

lemma lit_2_5: "double_of_dyadic 5 1 = Fin False (5 * 2 ^ 50) (- 51)"
  by (simp add: double_of_dyadic_def round_ne_def round_mag_def bitlen_small)

lemma lit_3: "double_of_dyadic 3 0 = Fin False (3 * 2 ^ 51) (- 51)"
  by (simp add: double_of_dyadic_def round_ne_def round_mag_def bitlen_small)

lemma lit_4: "double_of_dyadic 4 0 = Fin False (2 ^ 52) (- 50)"
  by (simp add: double_of_dyadic_def round_ne_def round_mag_def bitlen_small)

lemma lit_5: "double_of_dyadic 5 0 = Fin False (5 * 2 ^ 50) (- 50)"
  by (simp add: double_of_dyadic_def round_ne_def round_mag_def bitlen_small)

lemma lit_6_5: "double_of_dyadic 13 1 = Fin False (13 * 2 ^ 49) (- 50)"
  by (simp add: double_of_dyadic_def round_ne_def round_mag_def bitlen_small)

lemma neg_lit_1: "d_neg (double_of_dyadic 1 0) = Fin True (2 ^ 52) (- 52)"
  by (simp only: lit_1 d_neg.simps not_False_eq_True)

lemma sq_3: "d_mul (Fin False (3 * 2 ^ 51) (- 51)) (Fin False (3 * 2 ^ 51) (- 51)) = Fin False (9 * 2 ^ 49) (- 49)"
proof -
  have "bitlen (9 * 2 ^ 102) = 106" by (rule bitlen_unique) simp_all
  then show ?thesis by (simp add: round_ne_def round_mag_def)
qed

lemma sq_4: "d_mul (Fin False (2 ^ 52) (- 50)) (Fin False (2 ^ 52) (- 50)) = Fin False (2 ^ 52) (- 48)"
proof -
  have "bitlen (2 ^ 104) = 105" by (rule bitlen_unique) simp_all
  then show ?thesis by (simp add: round_ne_def round_mag_def)
qed

lemma sum_9_16: "d_add (Fin False (9 * 2 ^ 49) (- 49)) (Fin False (2 ^ 52) (- 48)) = Fin False (25 * 2 ^ 48) (- 48)"
proof -
  have "bitlen (25 * 2 ^ 49) = 54" by (rule bitlen_unique) simp_all
  then show ?thesis by (simp add: round_ne_def round_mag_def signed_def)
qed

lemma sqrt_25: "d_sqrt (Fin False (25 * 2 ^ 48) (- 48)) = Fin False (5 * 2 ^ 50) (- 50)"
proof -
  have r: "isqrt (25 * 2 ^ 158) = 5 * 2 ^ 79" by (rule isqrt_unique) simp_all
  have "bitlen (10 * 2 ^ 79) = 83" by (rule bitlen_unique) simp_all
  with r show ?thesis by (simp add: round_ne_def round_mag_def)
qed

lemma sum_3_m1: "d_add (Fin False (3 * 2 ^ 51) (- 51)) (Fin True (2 ^ 52) (- 52)) = Fin False (2 ^ 52) (- 51)"
proof -
  have "bitlen (2 ^ 53) = 54" by (rule bitlen_unique) simp_all
  then show ?thesis by (simp add: round_ne_def round_mag_def signed_def)
qed

lemma sum_4_2_5: "d_add (Fin False (2 ^ 52) (- 50)) (Fin False (5 * 2 ^ 50) (- 51)) = Fin False (13 * 2 ^ 49) (- 50)"
proof -
  have "bitlen (13 * 2 ^ 50) = 54" by (rule bitlen_unique) simp_all
  then show ?thesis by (simp add: round_ne_def round_mag_def signed_def)
qed

lemma sq_2: "d_mul (Fin False (2 ^ 52) (- 51)) (Fin False (2 ^ 52) (- 51)) = Fin False (2 ^ 52) (- 50)"
proof -
  have "bitlen (2 ^ 104) = 105" by (rule bitlen_unique) simp_all
  then show ?thesis by (simp add: round_ne_def round_mag_def)
qed

lemma sq_6_5: "d_mul (Fin False (13 * 2 ^ 49) (- 50)) (Fin False (13 * 2 ^ 49) (- 50)) = Fin False (169 * 2 ^ 45) (- 47)"
proof -
  have "bitlen (169 * 2 ^ 98) = 106" by (rule bitlen_unique) simp_all
  then show ?thesis by (simp add: round_ne_def round_mag_def)
qed

lemma sum_4_42_25: "d_add (Fin False (2 ^ 52) (- 50)) (Fin False (169 * 2 ^ 45) (- 47)) = Fin False (185 * 2 ^ 45) (- 47)"
proof -
  have "bitlen (185 * 2 ^ 48) = 56" by (rule bitlen_unique) simp_all
  then show ?thesis by (simp add: round_ne_def round_mag_def signed_def)
qed

lemma sqrt_46_25: "d_sqrt (Fin False (185 * 2 ^ 45) (- 47)) = Fin False 7656947189353967 (- 50)"
proof -
  have r: "isqrt (185 * 2 ^ 156) = 4110792220684300773448218" by (rule isqrt_unique) simp_all
  have "bitlen (2 * 4110792220684300773448218 + 1) = 83" by (rule bitlen_unique) simp_all
  with r show ?thesis by (simp add: round_ne_def round_mag_def)
qed

subsection \<open>The arithmetic on known values\<close>

text \<open>\<open>0.1 + 0.2\<close> is \<open>0.30000000000000004\<close> (bit pattern \<open>3FD3333333333334\<close>), not \<open>0.3\<close>.\<close>

lemma known_sum_tenths:
  "d_add (Fin False 7205759403792794 (- 56)) (Fin False 7205759403792794 (- 55)) =
     Fin False 5404319552844596 (- 54)"
proof -
  have "bitlen 21617278211378382 = 55" by (rule bitlen_unique) simp_all
  then show ?thesis by (simp add: round_ne_def round_mag_def signed_def Let_def)
qed

text \<open>\<open>1 + 2 ^ -53\<close> lies halfway between two data and rounds to the even one, \<open>1\<close>.\<close>

lemma known_tie_to_even:
  "d_add (Fin False 4503599627370496 (- 52)) (Fin False 4503599627370496 (- 105)) =
     Fin False 4503599627370496 (- 52)"
proof -
  have "bitlen 40564819207303345351494129942528 = 106" by (rule bitlen_unique) simp_all
  then show ?thesis by (simp add: round_ne_def round_mag_def signed_def Let_def)
qed

text \<open>The largest finite number added to itself overflows to the infinity.\<close>

lemma known_overflow:
  "d_add (Fin False 9007199254740991 (971)) (Fin False 9007199254740991 (971)) =
     Inf False"
proof -
  have "bitlen 18014398509481982 = 54" by (rule bitlen_unique) simp_all
  then show ?thesis by (simp add: round_ne_def round_mag_def signed_def Let_def)
qed

text \<open>Half of the smallest subnormal number lies halfway between it and zero, and rounds to zero.\<close>

lemma known_underflow:
  "d_mul (Fin False 1 (- 1074)) (Fin False 4503599627370496 (- 53)) =
     Fin False 0 (- 1074)"
proof -
  have "bitlen 4503599627370496 = 53" by (rule bitlen_unique) simp_all
  then show ?thesis by (simp add: round_ne_def round_mag_def Let_def)
qed

text \<open>A product in the subnormal range: \<open>2 ^ -540 * 1.5 * 2 ^ -533 = 3 * 2 ^ -1074\<close>.\<close>

lemma known_subnormal_product:
  "d_mul (Fin False 4503599627370496 (- 592)) (Fin False 6755399441055744 (- 585)) =
     Fin False 3 (- 1074)"
proof -
  have "bitlen 30423614405477505635920876929024 = 105" by (rule bitlen_unique) simp_all
  then show ?thesis by (simp add: round_ne_def round_mag_def Let_def)
qed

text \<open>The square root of two (bit pattern \<open>3FF6A09E667F3BCD\<close>).\<close>

lemma known_sqrt_2:
  "d_sqrt (Fin False 4503599627370496 (- 51)) =
     Fin False 6369051672525773 (- 52)"
proof -
  have r: "isqrt 11692013098647223345629478661730264157247460343808 = 3419358580004036860274166" by (rule isqrt_unique) simp_all
  have "bitlen 6838717160008073720548333 = 83" by (rule bitlen_unique) simp_all
  with r show ?thesis by (simp add: round_ne_def round_mag_def Let_def)
qed

text \<open>
  NaN results, as an x86-64 processor gives them: the first NaN operand made quiet
  (\<open>7FF8000000000001 + FFF8000000000002 = 7FF8000000000001\<close> and
  \<open>FFF4000000000005 - 0 = FFFC000000000005\<close>), the sign of a NaN kept by a subtraction
  and changed by a negation, and the default NaN \<open>FFF8000000000000\<close> of the invalid
  operations.
\<close>

lemma known_nans:
  "d_add (NaN False (2 ^ 51 + 1)) (NaN True (2 ^ 51 + 2)) = NaN False (2 ^ 51 + 1)"
  "d_add (NaN True (2 ^ 51 + 2)) (NaN False (2 ^ 51 + 1)) = NaN True (2 ^ 51 + 2)"
  "d_add (Fin False (2 ^ 52) (- 52)) (NaN True (2 ^ 51 + 2)) = NaN True (2 ^ 51 + 2)"
  "d_sub (Fin False (2 ^ 52) (- 52)) (NaN True (2 ^ 51 + 2)) = NaN True (2 ^ 51 + 2)"
  "d_mul (NaN False 1) (NaN False 1) = NaN False (2 ^ 51 + 1)"
  "d_sub (NaN True (2 ^ 50 + 5)) (Fin False 0 (- 1074)) = NaN True (2 ^ 51 + 2 ^ 50 + 5)"
  "d_sqrt (NaN True (2 ^ 51 + 2)) = NaN True (2 ^ 51 + 2)"
  "d_neg (NaN False 1) = NaN True 1"
  "d_add (Inf False) (Inf True) = NaN True (2 ^ 51)"
  "d_mul (Fin False 0 (- 1074)) (Inf False) = NaN True (2 ^ 51)"
  "d_sqrt (Fin True (2 ^ 52) (- 52)) = NaN True (2 ^ 51)"
  by (simp_all add: quiet_frac_def default_nan_def d_sub_def)

section \<open>Properties of the formatted output\<close>

lemma show_nat_digit: "n < 10 \<Longrightarrow> show_nat n = [digit_char n]"
  by (simp add: show_nat.simps)

lemma digit_chars:
  "digit_char 0 = CHR ''0''" "digit_char (Suc 0) = CHR ''1''" "digit_char 2 = CHR ''2''"
  "digit_char 3 = CHR ''3''" "digit_char 4 = CHR ''4''" "digit_char 5 = CHR ''5''"
  "digit_char 6 = CHR ''6''" "digit_char 7 = CHR ''7''" "digit_char 8 = CHR ''8''"
  "digit_char 9 = CHR ''9''"
  by (simp_all add: digit_char_def)

lemma digit_val_digit_char: "d < 10 \<Longrightarrow> digit_val (digit_char d) = d"
proof -
  assume "d < 10"
  then have "d = 0 \<or> d = 1 \<or> d = 2 \<or> d = 3 \<or> d = 4 \<or> d = 5 \<or> d = 6 \<or> d = 7 \<or> d = 8 \<or> d = 9"
    by arith
  then show ?thesis
    by (elim disjE) (simp_all add: digit_char_def digit_val_def)
qed

lemma read_nat_snoc: "read_nat (cs @ [c]) = 10 * read_nat cs + digit_val c"
  by (simp add: read_nat_def)

text \<open>\<open>show_nat\<close> prints the decimal numeral of its argument.\<close>

lemma read_nat_show_nat: "read_nat (show_nat n) = n"
proof (induction n rule: show_nat.induct)
  case (1 n)
  show ?case
  proof (cases "n < 10")
    case True
    then show ?thesis
      by (simp add: show_nat.simps [of n] read_nat_def digit_val_digit_char)
  next
    case False
    with 1 have "read_nat (show_nat (n div 10)) = n div 10" by simp
    with False show ?thesis
      by (simp add: show_nat.simps [of n] read_nat_snoc digit_val_digit_char)
  qed
qed

lemma decimal_split: "100 * (q div 100) + 10 * (q div 10 mod 10) + q mod 10 = (q::nat)"
proof -
  define A B C D where "A = q div 10" and "B = q mod 10" and "C = q div 100" and "D = q div 10 mod 10"
  have "q = 10 * A + B" by (simp add: A_def B_def)
  moreover have "A = 10 * (A div 10) + D" by (simp add: A_def D_def)
  moreover have "A div 10 = C" by (simp add: A_def C_def div_mult2_eq)
  ultimately have "100 * C + 10 * D + B = q" by linarith
  then show ?thesis by (simp only: A_def B_def C_def D_def)
qed

lemma fmt_2f_shape:
  "\<exists>ip a b. fmt_2f (Fin s m e) =
      (if s then ''-'' else []) @ show_nat ip @ ''.'' @ [digit_char a, digit_char b] \<and>
      a < 10 \<and> b < 10 \<and> 100 * ip + 10 * a + b = hundredths m e"
proof (intro exI conjI)
  show "fmt_2f (Fin s m e) =
      (if s then ''-'' else []) @ show_nat (hundredths m e div 100) @ ''.'' @
      [digit_char (hundredths m e div 10 mod 10), digit_char (hundredths m e mod 10)]"
    by (simp only: fmt_2f.simps Let_def)
  show "hundredths m e div 10 mod 10 < 10" "hundredths m e mod 10 < 10" by simp_all
  show "100 * (hundredths m e div 100) + 10 * (hundredths m e div 10 mod 10) + hundredths m e mod 10
        = hundredths m e"
    by (rule decimal_split)
qed

text \<open>The hundredths are the nearest ones: at most half a hundredth from the value.\<close>

lemma hundredths_exact: "hundredths m (int k) = m * 100 * 2 ^ k"
  by (simp add: hundredths_def)

text \<open>A tie goes to the even multiple.\<close>

lemma nearest_multiple_tie:
  fixes N P h :: nat
  assumes P: "P = 2 * h" and h: "0 < h"
  defines "R \<equiv> (if h < N mod P \<or> (N mod P = h \<and> odd (N div P)) then N div P + 1 else N div P)"
  assumes tie: "2 * N = 2 * (R * P) + P \<or> 2 * (R * P) = 2 * N + P"
  shows "even R"
proof -
  define A r where "A = N div P * P" and "r = N mod P"
  have N: "N = A + r" by (simp add: A_def r_def)
  have r: "r < P" using P h by (simp add: r_def)
  show ?thesis
  proof (cases "h < N mod P \<or> (N mod P = h \<and> odd (N div P))")
    case True
    then have R: "R = N div P + 1" unfolding R_def by (rule if_P)
    then have "R * P = A + P" by (simp add: A_def algebra_simps)
    with tie N r P have "r = h" by auto
    with True have "odd (N div P)" by (simp add: r_def)
    with R show ?thesis by simp
  next
    case False
    then have R: "R = N div P" unfolding R_def by (rule if_not_P)
    then have "R * P = A" by (simp add: A_def)
    with tie N r P h have "r = h" by auto
    with False have "even (N div P)" by (simp add: r_def)
    with R show ?thesis by simp
  qed
qed

lemma hundredths_unfold:
  "hundredths m (- int (Suc k)) =
     (if 2 ^ k < m * 100 mod 2 ^ Suc k \<or> (m * 100 mod 2 ^ Suc k = 2 ^ k \<and> odd (m * 100 div 2 ^ Suc k))
      then m * 100 div 2 ^ Suc k + 1 else m * 100 div 2 ^ Suc k)"
proof -
  have neg: "\<not> 0 \<le> - int (Suc k)" by simp
  have nk: "nat (- (- int (Suc k))) = Suc k" by simp
  have hk: "(2::nat) ^ (Suc k - 1) = 2 ^ k" by simp
  show ?thesis by (simp only: hundredths_def Let_def neg if_False nk hk)
qed

lemma hundredths_tie:
  assumes "2 * (m * 100) = 2 * (hundredths m (- int (Suc k)) * 2 ^ Suc k) + 2 ^ Suc k \<or>
           2 * (hundredths m (- int (Suc k)) * 2 ^ Suc k) = 2 * (m * 100) + 2 ^ Suc k"
  shows "even (hundredths m (- int (Suc k)))"
proof -
  have P: "(2::nat) ^ Suc k = 2 * 2 ^ k" and h: "(0::nat) < 2 ^ k" by simp_all
  from assms show ?thesis
    unfolding hundredths_unfold by (rule nearest_multiple_tie [OF P h])
qed

lemma hundredths_nearest:
  "2 * (hundredths m (- int (Suc k)) * 2 ^ Suc k) \<le> 2 * (m * 100) + 2 ^ Suc k \<and>
   2 * (m * 100) \<le> 2 * (hundredths m (- int (Suc k)) * 2 ^ Suc k) + 2 ^ Suc k"
proof -
  have "hundredths m (- int (Suc k)) =
     (if 2 ^ k < m * 100 mod 2 ^ Suc k \<or> (m * 100 mod 2 ^ Suc k = 2 ^ k \<and> odd (m * 100 div 2 ^ Suc k))
      then m * 100 div 2 ^ Suc k + 1 else m * 100 div 2 ^ Suc k)"
  proof -
    have neg: "\<not> 0 \<le> - int (Suc k)" by simp
    have nk: "nat (- (- int (Suc k))) = Suc k" by simp
    have hk: "(2::nat) ^ (Suc k - 1) = 2 ^ k" by simp
    show ?thesis by (simp only: hundredths_def Let_def neg if_False nk hk)
  qed
  moreover have "(2::nat) ^ Suc k = 2 * 2 ^ k" "(0::nat) < 2 ^ k" by simp_all
  ultimately show ?thesis using nearest_multiple [of "2 ^ Suc k" "2 ^ k" "m * 100"]
    by (simp only:)
qed

text \<open>
  \<open>%.2f\<close> rounds the exact binary value: \<open>0.125\<close> is a tie and goes to the even
  \<open>0.12\<close>, \<open>0.375\<close> to \<open>0.38\<close>; a small negative number is printed as \<open>-0.00\<close>.
\<close>

lemma known_fmt:
  "fmt_2f (Fin False (2 ^ 52) (- 55)) = ''0.12''"
  "fmt_2f (Fin False (3 * 2 ^ 51) (- 54)) = ''0.38''"
  "fmt_2f (Fin True 4611686018427388 (- 62)) = ''-0.00''"
  "fmt_2f (Fin True 0 (- 1074)) = ''-0.00''"
  by (simp_all add: hundredths_def Let_def show_nat_digit digit_chars)

lemma fmt_3: "fmt_2f (Fin False (3 * 2 ^ 51) (- 51)) = ''3.00''"
  by (simp add: hundredths_def Let_def show_nat_digit digit_chars)

lemma fmt_4: "fmt_2f (Fin False (2 ^ 52) (- 50)) = ''4.00''"
  by (simp add: hundredths_def Let_def show_nat_digit digit_chars)

lemma fmt_m1: "fmt_2f (Fin True (2 ^ 52) (- 52)) = ''-1.00''"
  by (simp add: hundredths_def Let_def show_nat_digit digit_chars)

lemma fmt_2_5: "fmt_2f (Fin False (5 * 2 ^ 50) (- 51)) = ''2.50''"
  by (simp add: hundredths_def Let_def show_nat_digit digit_chars)

lemma fmt_5: "fmt_2f (Fin False (5 * 2 ^ 50) (- 50)) = ''5.00''"
  by (simp add: hundredths_def Let_def show_nat_digit digit_chars)

lemma fmt_2: "fmt_2f (Fin False (2 ^ 52) (- 51)) = ''2.00''"
  by (simp add: hundredths_def Let_def show_nat_digit digit_chars)

lemma fmt_6_5: "fmt_2f (Fin False (13 * 2 ^ 49) (- 50)) = ''6.50''"
  by (simp add: hundredths_def Let_def show_nat_digit digit_chars)

lemma fmt_sqrt_46_25: "fmt_2f (Fin False 7656947189353967 (- 50)) = ''6.80''"
  by (simp add: hundredths_def Let_def show_nat_digit digit_chars)

section \<open>Properties of the point module\<close>

lemma createPoint_from_eq: "createPoint_from newPoint a b = createPoint a b"
  by (simp add: createPoint_from_def createPoint_def)


lemma createPoint_sel: "x (createPoint a b) = a" "y (createPoint a b) = b"
  by (simp_all add: createPoint_def)


lemma distanceToOrigin_squares:
  "distanceToOrigin p =
     d_sqrt (d_add (d_mul (d_sub (x p) (double_of_int 0)) (d_sub (x p) (double_of_int 0)))
                   (d_mul (d_sub (y p) (double_of_int 0)) (d_sub (y p) (double_of_int 0))))"
  by (simp add: distanceToOrigin_def ORIGIN_X_def ORIGIN_Y_def Let_def)

lemma distanceToOrigin_deltas:
  "is_double (x p) \<Longrightarrow> is_double (y p) \<Longrightarrow>
   distanceToOrigin p = d_sqrt (d_add (d_mul (x p) (x p)) (d_mul (y p) (y p)))"
  by (simp add: distanceToOrigin_squares sq_delta)

lemma distanceToOrigin_is_double:
  "is_double (x p) \<Longrightarrow> is_double (y p) \<Longrightarrow> is_double (distanceToOrigin p)"
  by (simp add: distanceToOrigin_deltas d_sqrt_is_double d_add_is_double d_mul_is_double)

lemma addPoints_is_double:
  "is_double (x p1) \<Longrightarrow> is_double (x p2) \<Longrightarrow> is_double (x (addPoints p1 p2))"
  "is_double (y p1) \<Longrightarrow> is_double (y p2) \<Longrightarrow> is_double (y (addPoints p1 p2))"
  by (simp_all add: addPoints_def d_add_is_double)

lemma is_double_lits:
  "is_double (double_of_dyadic 3 0)" "is_double (double_of_dyadic 4 0)"
  by (simp_all add: lit_3 lit_4)

lemma is_double_sum: "is_double (double_of_dyadic 2 0)" "is_double (double_of_dyadic 13 1)"
  by (simp_all only: lit_2 lit_6_5) simp_all

lemma distance_3_4:
  "distanceToOrigin (createPoint (double_of_dyadic 3 0) (double_of_dyadic 4 0)) = double_of_dyadic 5 0"
proof -
  have "distanceToOrigin (createPoint (double_of_dyadic 3 0) (double_of_dyadic 4 0)) =
        d_sqrt (d_add (d_mul (double_of_dyadic 3 0) (double_of_dyadic 3 0))
                      (d_mul (double_of_dyadic 4 0) (double_of_dyadic 4 0)))"
    by (simp only: distanceToOrigin_deltas createPoint_sel is_double_lits)
  also have "\<dots> = double_of_dyadic 5 0"
    by (simp only: lit_3 lit_4 lit_5 sq_3 sq_4 sum_9_16 sqrt_25)
  finally show ?thesis .
qed

lemma distance_sum:
  "distanceToOrigin (createPoint (double_of_dyadic 2 0) (double_of_dyadic 13 1)) =
     Fin False 7656947189353967 (- 50)"
proof -
  have "distanceToOrigin (createPoint (double_of_dyadic 2 0) (double_of_dyadic 13 1)) =
        d_sqrt (d_add (d_mul (double_of_dyadic 2 0) (double_of_dyadic 2 0))
                      (d_mul (double_of_dyadic 13 1) (double_of_dyadic 13 1)))"
    by (simp only: distanceToOrigin_deltas createPoint_sel is_double_sum)
  also have "\<dots> = Fin False 7656947189353967 (- 50)"
    by (simp only: lit_2 lit_6_5 sq_2 sq_6_5 sum_4_42_25 sqrt_46_25)
  finally show ?thesis .
qed

lemma distance_0_0:
  "distanceToOrigin (createPoint (double_of_dyadic 0 0) (double_of_dyadic 0 0)) = double_of_dyadic 0 0"
proof -
  have z: "is_double (double_of_dyadic 0 0)" by (simp add: lit_0)
  have "distanceToOrigin (createPoint (double_of_dyadic 0 0) (double_of_dyadic 0 0)) =
        d_sqrt (d_add (d_mul (double_of_dyadic 0 0) (double_of_dyadic 0 0))
                      (d_mul (double_of_dyadic 0 0) (double_of_dyadic 0 0)))"
    by (simp only: distanceToOrigin_deltas createPoint_sel z)
  also have "\<dots> = double_of_dyadic 0 0"
    by (simp add: lit_0 round_ne_def round_mag_def signed_0)
  finally show ?thesis .
qed

lemma add_example:
  "addPoints (createPoint (double_of_dyadic 3 0) (double_of_dyadic 4 0))
             (createPoint (d_neg (double_of_dyadic 1 0)) (double_of_dyadic 5 1))
     = createPoint (double_of_dyadic 2 0) (double_of_dyadic 13 1)"
  by (simp only: addPoints_def createPoint_sel)
     (simp only: neg_lit_1 lit_3 lit_4 lit_2_5 sum_3_m1 sum_4_2_5 lit_2 lit_6_5 createPoint_def)

lemma sq_delta_inf:
  "d_mul (d_sub (Inf s) (double_of_int 0)) (d_sub (Inf s) (double_of_int 0)) = Inf False"
  by (simp add: d_sub_zero_cases)

lemma sq_delta_is_nan:
  "is_nan (d_mul (d_sub a (double_of_int 0)) (d_sub a (double_of_int 0))) = is_nan a"
  by (simp add: d_mul_self_is_nan d_sub_zero_is_nan)

lemma sq_delta_cases:
  assumes "\<not> is_nan a"
  shows "d_mul (d_sub a (double_of_int 0)) (d_sub a (double_of_int 0)) = Inf False \<or>
         (\<exists>m e. d_mul (d_sub a (double_of_int 0)) (d_sub a (double_of_int 0)) = Fin False m e)"
proof (rule d_mul_self_cases)
  show "\<not> is_nan (d_sub a (double_of_int 0))"
    using assms by (simp add: d_sub_zero_is_nan)
qed

text \<open>The sum of two squares that are not NaN has a root that is not NaN.\<close>

lemma d_add_nonneg:
  assumes "u = Inf False \<or> (\<exists>m e. u = Fin False m e)"
    and "v = Inf False \<or> (\<exists>m e. v = Fin False m e)"
  shows "d_add u v = Inf False \<or> (\<exists>m e. d_add u v = Fin False m e)"
proof -
  have fin: "d_add (Fin False m e) (Fin False n d) = Inf False \<or>
             (\<exists>m' e'. d_add (Fin False m e) (Fin False n d) = Fin False m' e')" for m e n d
  proof -
    let ?v = "signed False (m * 2 ^ nat (e - min e d)) + signed False (n * 2 ^ nat (d - min e d))"
    have pos: "0 \<le> signed False k" for k by (simp add: signed_def)
    have "\<not> ?v < 0"
      using pos [of "m * 2 ^ nat (e - min e d)"] pos [of "n * 2 ^ nat (d - min e d)"]
      by linarith
    with round_ne_cases [of False "nat \<bar>?v\<bar>" "min e d"] show ?thesis
      by (auto simp: Let_def)
  qed
  from assms(1) show ?thesis
  proof (elim disjE exE)
    assume "u = Inf False"
    with assms(2) show ?thesis by auto
  next
    fix m e
    assume u: "u = Fin False m e"
    from assms(2) show ?thesis
    proof (elim disjE exE)
      assume "v = Inf False"
      with u show ?thesis by simp
    next
      fix n d
      assume "v = Fin False n d"
      with u fin [of m e n d] show ?thesis by (simp only:)
    qed
  qed
qed

lemma d_sqrt_nonneg:
  assumes "u = Inf False \<or> (\<exists>m e. u = Fin False m e)"
  shows "\<not> is_nan (d_sqrt u)"
proof (cases u)
  case (NaN s f)
  with assms show ?thesis by simp
next
  case (Inf s)
  with assms show ?thesis by simp
next
  case (Fin s m e)
  have r: "\<not> is_nan (round_ne False M E)" for M E
    using round_ne_cases [of False M E] by auto
  from Fin assms have "s = False" by simp
  with Fin r show ?thesis by (cases "m = 0") (simp_all add: Let_def)
qed

lemma d_sqrt_is_nan: "is_nan a \<Longrightarrow> is_nan (d_sqrt a)"
  by (cases a) simp_all

text \<open>The distance is a NaN exactly when a coordinate is.\<close>

lemma distance_is_nan: "is_nan (distanceToOrigin p) = (is_nan (x p) \<or> is_nan (y p))"
proof (cases "is_nan (x p) \<or> is_nan (y p)")
  case True
  then have "is_nan (d_add (d_mul (d_sub (x p) (double_of_int 0)) (d_sub (x p) (double_of_int 0)))
                          (d_mul (d_sub (y p) (double_of_int 0)) (d_sub (y p) (double_of_int 0))))"
    by (auto simp: sq_delta_is_nan intro: d_add_is_nan_left d_add_is_nan_right)
  then have "is_nan (distanceToOrigin p)"
    unfolding distanceToOrigin_squares by (rule d_sqrt_is_nan)
  with True show ?thesis by simp
next
  case False
  then have nn: "\<not> is_nan (x p)" "\<not> is_nan (y p)" by simp_all
  have "\<not> is_nan (distanceToOrigin p)"
    unfolding distanceToOrigin_squares
    by (rule d_sqrt_nonneg, rule d_add_nonneg, rule sq_delta_cases [OF nn(1)],
        rule sq_delta_cases [OF nn(2)])
  with False show ?thesis by simp
qed

lemma distance_Inf:
  assumes inf: "x p = Inf s \<or> y p = Inf s" and nn: "\<not> is_nan (x p)" "\<not> is_nan (y p)"
  shows "distanceToOrigin p = Inf False"
proof -
  let ?sx = "d_mul (d_sub (x p) (double_of_int 0)) (d_sub (x p) (double_of_int 0))"
  let ?sy = "d_mul (d_sub (y p) (double_of_int 0)) (d_sub (y p) (double_of_int 0))"
  have d: "distanceToOrigin p = d_sqrt (d_add ?sx ?sy)"
    by (rule distanceToOrigin_squares)
  from sq_delta_cases [OF nn(1)] have cx: "?sx = Inf False \<or> (\<exists>m e. ?sx = Fin False m e)" .
  from sq_delta_cases [OF nn(2)] have cy: "?sy = Inf False \<or> (\<exists>m e. ?sy = Fin False m e)" .
  from inf have "?sx = Inf False \<or> ?sy = Inf False"
    by (auto simp: sq_delta_inf)
  with cx cy have "d_add ?sx ?sy = Inf False" by auto
  with d show ?thesis by simp
qed



lemma displayPoint_text:
  "displayPoint p out = out @ ''Point(x: '' @ fmt_2f (x p) @ '', y: '' @ fmt_2f (y p) @ '')'' @ [CHR 0x0A]"
  by (simp add: displayPoint_def put_def)

lemma display_3_4:
  "displayPoint (createPoint (double_of_dyadic 3 0) (double_of_dyadic 4 0)) out =
     out @ ''Point(x: 3.00, y: 4.00)'' @ [CHR 0x0A]"
  by (simp only: displayPoint_text createPoint_sel lit_3 lit_4 fmt_3 fmt_4) simp

lemma display_m1_2_5:
  "displayPoint (createPoint (d_neg (double_of_dyadic 1 0)) (double_of_dyadic 5 1)) out =
     out @ ''Point(x: -1.00, y: 2.50)'' @ [CHR 0x0A]"
  by (simp only: displayPoint_text createPoint_sel neg_lit_1 lit_2_5 fmt_m1 fmt_2_5) simp

lemma display_2_6_5:
  "displayPoint (createPoint (double_of_dyadic 2 0) (double_of_dyadic 13 1)) out =
     out @ ''Point(x: 2.00, y: 6.50)'' @ [CHR 0x0A]"
  by (simp only: displayPoint_text createPoint_sel lit_2 lit_6_5 fmt_2 fmt_6_5) simp

text \<open>The whole run of \<open>main\<close>: the five lines it writes, and its return value.\<close>

lemma main_output:
  "main out0 =
     (out0 @ ''Point p1: Point(x: 3.00, y: 4.00)'' @ [CHR 0x0A] @
             ''Point p2: Point(x: -1.00, y: 2.50)'' @ [CHR 0x0A] @
             ''Distance of p1 from origin: 5.00'' @ [CHR 0x0A] @
             ''Sum of p1 and p2: Point(x: 2.00, y: 6.50)'' @ [CHR 0x0A] @
             ''Distance of sumPoint from origin: 6.80'' @ [CHR 0x0A], 0)"
  by (simp only: main_def Let_def add_example distance_3_4 distance_sum display_3_4
      display_m1_2_5 display_2_6_5 lit_5 fmt_5 fmt_sqrt_46_25 put_def)
     simp

section \<open>The claims\<close>

text \<open>
  C1. For every point whose coordinates are binary64 data, \<open>distanceToOrigin\<close> returns
  the square root of \<open>x * x + y * y\<close>, each operation rounded as IEEE 754 prescribes,
  bit for bit: the deltas from the origin's zero have the squares of the coordinates
  (a number is its own delta, a negative zero included, and the square of a NaN and of
  its delta are both that NaN made quiet).
\<close>

theorem distanceToOrigin_is_sqrt_of_squares:
  assumes "is_double (x p)" and "is_double (y p)"
  shows "distanceToOrigin p = d_sqrt (d_add (d_mul (x p) (x p)) (d_mul (y p) (y p)))"
proof -
  have sqX: "d_mul (d_sub (x p) (double_of_int ORIGIN_X)) (d_sub (x p) (double_of_int ORIGIN_X)) =
             d_mul (x p) (x p)"
    using assms(1) by (simp add: ORIGIN_X_def sq_delta)
  have sqY: "d_mul (d_sub (y p) (double_of_int ORIGIN_Y)) (d_sub (y p) (double_of_int ORIGIN_Y)) =
             d_mul (y p) (y p)"
    using assms(2) by (simp add: ORIGIN_Y_def sq_delta)
  show ?thesis
    by (simp add: distanceToOrigin_def Let_def sqX sqY)
qed

theorem distanceToOrigin_is_sqrt_of_squares_witness:
  "is_double (x (createPoint (double_of_dyadic 3 0) (double_of_dyadic 4 0))) \<and>
   is_double (y (createPoint (double_of_dyadic 3 0) (double_of_dyadic 4 0))) \<and>
   distanceToOrigin (createPoint (double_of_dyadic 3 0) (double_of_dyadic 4 0)) =
     d_sqrt (d_add (d_mul (double_of_dyadic 3 0) (double_of_dyadic 3 0))
                   (d_mul (double_of_dyadic 4 0) (double_of_dyadic 4 0))) \<and>
   is_double (x (createPoint (NaN False 1) (double_of_dyadic 4 0))) \<and>
   distanceToOrigin (createPoint (NaN False 1) (double_of_dyadic 4 0)) =
     d_sqrt (d_add (d_mul (NaN False 1) (NaN False 1))
                   (d_mul (double_of_dyadic 4 0) (double_of_dyadic 4 0)))"
  using distanceToOrigin_is_sqrt_of_squares
    [of "createPoint (double_of_dyadic 3 0) (double_of_dyadic 4 0)"]
    distanceToOrigin_is_sqrt_of_squares
    [of "createPoint (NaN False 1) (double_of_dyadic 4 0)"]
  by (simp only: createPoint_sel is_double_lits simp_thms) simp

text \<open>
  C2, amended. \<open>displayPoint\<close> appends \<open>Point(x: <x>, y: <y>)\<close> and a newline
  character to the output. A finite coordinate is printed as a minus sign when its sign
  bit is set, the decimal numeral of its integer part, a point and exactly two
  decimals; together they are the number of hundredths nearest to the value (\<open>q\<close>
  hundredths for the value \<open>m * 2 ^ e\<close>: exact when \<open>e\<close> is not negative, otherwise at
  most half a hundredth away, and even when the value lies halfway between two). An
  infinite coordinate is printed as \<open>inf\<close> and a NaN coordinate as \<open>nan\<close>, after a minus
  sign when the sign bit is set. For \<open>(3, 4)\<close> the text is \<open>Point(x: 3.00, y: 4.00)\<close>
  and the newline; for \<open>(-1, 2.5)\<close> it is \<open>Point(x: -1.00, y: 2.50)\<close> and the newline.
\<close>

theorem displayPoint_format:
  "displayPoint p out =
     out @ ''Point(x: '' @ fmt_2f (x p) @ '', y: '' @ fmt_2f (y p) @ '')'' @ [CHR 0x0A] \<and>
   (\<exists>ip a b. fmt_2f (Fin s m e) =
      (if s then ''-'' else []) @ show_nat ip @ ''.'' @ [digit_char a, digit_char b] \<and>
      read_nat (show_nat ip) = ip \<and> a < 10 \<and> b < 10 \<and> digit_val (digit_char a) = a \<and>
      digit_val (digit_char b) = b \<and> 100 * ip + 10 * a + b = hundredths m e) \<and>
   hundredths m (int k) = m * 100 * 2 ^ k \<and>
   2 * (hundredths m (- int (Suc k)) * 2 ^ Suc k) \<le> 2 * (m * 100) + 2 ^ Suc k \<and>
   2 * (m * 100) \<le> 2 * (hundredths m (- int (Suc k)) * 2 ^ Suc k) + 2 ^ Suc k \<and>
   (2 * (m * 100) = 2 * (hundredths m (- int (Suc k)) * 2 ^ Suc k) + 2 ^ Suc k \<or>
    2 * (hundredths m (- int (Suc k)) * 2 ^ Suc k) = 2 * (m * 100) + 2 ^ Suc k
      \<longrightarrow> even (hundredths m (- int (Suc k)))) \<and>
   fmt_2f (Inf t) = (if t then ''-inf'' else ''inf'') \<and>
   fmt_2f (NaN t f) = (if t then ''-nan'' else ''nan'') \<and>
   displayPoint (createPoint (double_of_dyadic 3 0) (double_of_dyadic 4 0)) [] =
     ''Point(x: 3.00, y: 4.00)'' @ [CHR 0x0A] \<and>
   displayPoint (createPoint (d_neg (double_of_dyadic 1 0)) (double_of_dyadic 5 1)) [] =
     ''Point(x: -1.00, y: 2.50)'' @ [CHR 0x0A]"
proof (intro conjI)
  show "displayPoint p out =
     out @ ''Point(x: '' @ fmt_2f (x p) @ '', y: '' @ fmt_2f (y p) @ '')'' @ [CHR 0x0A]"
    by (rule displayPoint_text)
  from fmt_2f_shape [of s m e] obtain ip a b where
    "fmt_2f (Fin s m e) =
      (if s then ''-'' else []) @ show_nat ip @ ''.'' @ [digit_char a, digit_char b]"
    "a < 10" "b < 10" "100 * ip + 10 * a + b = hundredths m e"
    by blast
  then show "\<exists>ip a b. fmt_2f (Fin s m e) =
      (if s then ''-'' else []) @ show_nat ip @ ''.'' @ [digit_char a, digit_char b] \<and>
      read_nat (show_nat ip) = ip \<and> a < 10 \<and> b < 10 \<and> digit_val (digit_char a) = a \<and>
      digit_val (digit_char b) = b \<and> 100 * ip + 10 * a + b = hundredths m e"
    using read_nat_show_nat [of ip] digit_val_digit_char [of a] digit_val_digit_char [of b]
    by blast
  show "hundredths m (int k) = m * 100 * 2 ^ k"
    by (rule hundredths_exact)
  show "2 * (hundredths m (- int (Suc k)) * 2 ^ Suc k) \<le> 2 * (m * 100) + 2 ^ Suc k"
    "2 * (m * 100) \<le> 2 * (hundredths m (- int (Suc k)) * 2 ^ Suc k) + 2 ^ Suc k"
    using hundredths_nearest [of m k] by blast+
  show "2 * (m * 100) = 2 * (hundredths m (- int (Suc k)) * 2 ^ Suc k) + 2 ^ Suc k \<or>
    2 * (hundredths m (- int (Suc k)) * 2 ^ Suc k) = 2 * (m * 100) + 2 ^ Suc k
      \<longrightarrow> even (hundredths m (- int (Suc k)))"
    using hundredths_tie [of m k] by blast
  show "fmt_2f (Inf t) = (if t then ''-inf'' else ''inf'')"
    "fmt_2f (NaN t f) = (if t then ''-nan'' else ''nan'')"
    by simp_all
  show "displayPoint (createPoint (double_of_dyadic 3 0) (double_of_dyadic 4 0)) [] =
     ''Point(x: 3.00, y: 4.00)'' @ [CHR 0x0A]"
    using display_3_4 [of "[]"] by (simp only: append_Nil)
  show "displayPoint (createPoint (d_neg (double_of_dyadic 1 0)) (double_of_dyadic 5 1)) [] =
     ''Point(x: -1.00, y: 2.50)'' @ [CHR 0x0A]"
    using display_m1_2_5 [of "[]"] by (simp only: append_Nil)
qed

text \<open>
  The amended C2 at \<open>0.125\<close>, which lies halfway between 12 and 13 hundredths: it is
  printed as \<open>0.12\<close>.
\<close>

theorem displayPoint_format_witness:
  "2 * (2 ^ 52 * 100) = 2 * (hundredths (2 ^ 52) (- int (Suc 54)) * 2 ^ Suc 54) + 2 ^ Suc 54 \<and>
   even (hundredths (2 ^ 52) (- int (Suc 54))) \<and>
   fmt_2f (Fin False (2 ^ 52) (- int (Suc 54))) = ''0.12''"
proof -
  have h: "hundredths (2 ^ 52) (- int (Suc 54)) = 12"
    by (simp add: hundredths_def Let_def)
  have tie: "2 * (2 ^ 52 * 100) = 2 * (hundredths (2 ^ 52) (- int (Suc 54)) * 2 ^ Suc 54) + 2 ^ Suc 54"
    unfolding h by simp
  from displayPoint_format [of _ _ _ "2 ^ 52" _ 54] tie
  have "even (hundredths (2 ^ 52) (- int (Suc 54)))" by blast
  moreover have "fmt_2f (Fin False (2 ^ 52) (- int (Suc 54))) = ''0.12''"
    using known_fmt(1) by simp
  ultimately show ?thesis using tie by blast
qed

text \<open>
  C2 as stated does not hold: the text written for \<open>(3, 4)\<close> is not
  \<open>Point(x: 3.00, y: 4.00)\<close> alone, a newline character follows it; and a coordinate that
  is not finite is written as a word, without decimals.
\<close>

theorem displayPoint_counterexample:
  "displayPoint (createPoint (double_of_dyadic 3 0) (double_of_dyadic 4 0)) [] \<noteq>
     ''Point(x: 3.00, y: 4.00)'' \<and>
   displayPoint (createPoint (NaN True (2 ^ 51)) (Inf False)) [] =
     ''Point(x: -nan, y: inf)'' @ [CHR 0x0A]"
  by (simp add: display_3_4 displayPoint_text createPoint_sel)

text \<open>
  C3. \<open>addPoints\<close> returns the point of the two field sums, each one IEEE 754 addition,
  whatever the local \<open>result\<close> held before the assignments;
  \<open>(3, 4) + (-1, 2.5) = (2, 6.5)\<close>.
\<close>

theorem addPoints_fieldwise:
  "x (addPoints_from result p1 p2) = d_add (x p1) (x p2) \<and>
   y (addPoints_from result p1 p2) = d_add (y p1) (y p2) \<and>
   addPoints p1 p2 = \<lparr>x = d_add (x p1) (x p2), y = d_add (y p1) (y p2)\<rparr> \<and>
   addPoints (createPoint (double_of_dyadic 3 0) (double_of_dyadic 4 0))
             (createPoint (d_neg (double_of_dyadic 1 0)) (double_of_dyadic 5 1))
     = createPoint (double_of_dyadic 2 0) (double_of_dyadic 13 1)"
  using add_example by (simp add: addPoints_def addPoints_from_def)

text \<open>
  C4. \<open>createPoint\<close> returns a point whose fields are the two arguments, unchanged,
  whatever the local structure held before the assignments.
\<close>

theorem createPoint_fields:
  "x (createPoint a b) = a \<and> y (createPoint a b) = b \<and>
   x (createPoint_from newPoint a b) = a \<and> y (createPoint_from newPoint a b) = b"
  by (simp add: createPoint_def createPoint_from_def)




text \<open>
  C6. Special values: the distance of \<open>(0, 0)\<close> is \<open>0.0\<close>; with a NaN coordinate it is
  a NaN; with an infinite coordinate and no NaN coordinate it is the positive infinity.
\<close>

theorem distanceToOrigin_special_values:
  "distanceToOrigin (createPoint (double_of_dyadic 0 0) (double_of_dyadic 0 0)) = double_of_dyadic 0 0 \<and>
   (is_nan (x p) \<or> is_nan (y p) \<longrightarrow> is_nan (distanceToOrigin p)) \<and>
   ((x p = Inf s \<or> y p = Inf s) \<and> \<not> is_nan (x p) \<and> \<not> is_nan (y p) \<longrightarrow>
      distanceToOrigin p = Inf False)"
  using distance_0_0 distance_is_nan [of p] distance_Inf [of p s] by blast

theorem distanceToOrigin_special_values_witness:
  "is_nan (distanceToOrigin (createPoint (NaN False 1) (double_of_dyadic 3 0))) \<and>
   is_nan (distanceToOrigin (createPoint (double_of_dyadic 3 0) (NaN True (2 ^ 51)))) \<and>
   distanceToOrigin (createPoint (Inf True) (double_of_dyadic 3 0)) = Inf False \<and>
   distanceToOrigin (createPoint (double_of_dyadic 3 0) (Inf False)) = Inf False \<and>
   distanceToOrigin (createPoint (Inf True) (Inf False)) = Inf False"
  using distanceToOrigin_special_values [of "createPoint (NaN False 1) (double_of_dyadic 3 0)"]
    distanceToOrigin_special_values [of "createPoint (double_of_dyadic 3 0) (NaN True (2 ^ 51))"]
    distanceToOrigin_special_values [of "createPoint (Inf True) (double_of_dyadic 3 0)" True]
    distanceToOrigin_special_values [of "createPoint (double_of_dyadic 3 0) (Inf False)" False]
    distanceToOrigin_special_values [of "createPoint (Inf True) (Inf False)" True]
  by (simp add: createPoint_sel lit_3)

text \<open>
  C7. The distance of \<open>(3, 4)\<close> to the origin is exactly \<open>5.0\<close>.
\<close>

theorem distanceToOrigin_3_4_is_5:
  "distanceToOrigin (createPoint (double_of_dyadic 3 0) (double_of_dyadic 4 0)) = double_of_dyadic 5 0"
proof -
  have "distanceToOrigin (createPoint (double_of_dyadic 3 0) (double_of_dyadic 4 0)) =
        d_sqrt (d_add (d_mul (double_of_dyadic 3 0) (double_of_dyadic 3 0))
                      (d_mul (double_of_dyadic 4 0) (double_of_dyadic 4 0)))"
    by (simp only: distanceToOrigin_deltas createPoint_sel is_double_lits)
  also have "\<dots> = d_sqrt (d_add (Fin False (9 * 2 ^ 49) (- 49)) (Fin False (2 ^ 52) (- 48)))"
    by (simp only: lit_3 lit_4 sq_3 sq_4)
  also have "\<dots> = d_sqrt (Fin False (25 * 2 ^ 48) (- 48))"
    by (simp only: sum_9_16)
  also have "\<dots> = double_of_dyadic 5 0"
    by (simp only: sqrt_25 lit_5)
  finally show ?thesis .
qed

text \<open>
  C8. \<open>main\<close> returns, and its return value is 0, whatever was written to the
  output before it started: no step of it can fail.
\<close>

theorem main_returns_0: "\<exists>out. main out0 = (out, 0)"
  by (simp add: main_def Let_def)




end
